theory Spec2Isabelle
  imports Main "HOL-Library.Word"
begin

unbundle bit_operations_syntax

section \<open>The dump loader \<^verbatim>\<open>mdbx_load.c\<close>: bytes and C strings\<close>

text \<open>
  The loader reads a textual dump from standard input and replays it into an MDBX
  environment.  A C \<^verbatim>\<open>unsigned char\<close> is an 8-bit word, a C \<^verbatim>\<open>int\<close> a 32-bit word
  (read with \<^const>\<open>sint\<close>).  ASCII literals of the source are written as Isabelle
  strings and converted with \<open>bytes_of\<close>.
\<close>

type_synonym byte = "8 word"

definition bytes_of :: "string \<Rightarrow> byte list" where
  "bytes_of s = map of_char s"

definition NUL :: byte where "NUL = 0"
definition NL :: byte where "NL = 0x0A"

subsection \<open>\<^verbatim>\<open>isxdigit\<close> (C locale) and \<^verbatim>\<open>unhex\<close>\<close>

text \<open>
  \<^verbatim>\<open>isxdigit\<close> of \<^verbatim>\<open>ctype.h\<close> in the C locale: the digits and the letters a-f, A-F.
\<close>

definition isxdigit :: "byte \<Rightarrow> bool" where
  "isxdigit c \<longleftrightarrow>
     (0x30 \<le> c \<and> c \<le> 0x39) \<or> (0x41 \<le> c \<and> c \<le> 0x46) \<or> (0x61 \<le> c \<and> c \<le> 0x66)"

text \<open>
  \<^verbatim>\<open>static int unhex(unsigned char *c2)\<close> reads \<^verbatim>\<open>c2[0]\<close> and \<^verbatim>\<open>c2[1]\<close>:
  \<^verbatim>\<open>x = *c2++ & 0x4f; if (x & 0x40) x -= 55; c = x << 4;
  x = *c2 & 0x4f; if (x & 0x40) x -= 55; c |= x; return c;\<close>
\<close>

definition unhex :: "byte \<Rightarrow> byte \<Rightarrow> 32 word" where
  "unhex b0 b1 =
    (let x = ucast b0 AND 0x4f;
         x = (if x AND 0x40 \<noteq> 0 then x - 55 else x);
         c = push_bit 4 x;
         x = ucast b1 AND 0x4f;
         x = (if x AND 0x40 \<noteq> 0 then x - 55 else x)
     in c OR x)"

text \<open>
  The reference the claims compare \<^const>\<open>unhex\<close> with: the numeric value of one
  hexadecimal digit, and the lower-case form of a letter digit.
\<close>

definition hexval :: "byte \<Rightarrow> nat" where
  "hexval c = (if 0x30 \<le> c \<and> c \<le> 0x39 then unat c - 48
               else if 0x41 \<le> c \<and> c \<le> 0x46 then unat c - 55
               else unat c - 87)"

definition hex_lower :: "byte \<Rightarrow> byte" where
  "hex_lower c = (if 0x41 \<le> c \<and> c \<le> 0x46 then c + 0x20 else c)"

definition hex_upper :: "byte \<Rightarrow> byte" where
  "hex_upper c = (if 0x61 \<le> c \<and> c \<le> 0x66 then c - 0x20 else c)"

definition hex_digits :: "byte list" where
  "hex_digits = [0x30,0x31,0x32,0x33,0x34,0x35,0x36,0x37,0x38,0x39,
                 0x41,0x42,0x43,0x44,0x45,0x46,0x61,0x62,0x63,0x64,0x65,0x66]"

text \<open>One half of \<^const>\<open>unhex\<close>: the nibble of one digit.\<close>

definition nib :: "byte \<Rightarrow> 32 word" where
  "nib b = (let x = ucast b AND 0x4f in if x AND 0x40 \<noteq> 0 then x - 55 else x)"

subsection \<open>C library functions on byte buffers\<close>

text \<open>
  A buffer is the list of the bytes of an allocated block.  A C string inside it starts
  at an offset and ends before the first NUL byte.
\<close>

definition peek :: "byte list \<Rightarrow> nat \<Rightarrow> byte option" where
  "peek b i = (if i < length b then Some (b ! i) else None)"

definition poke :: "byte list \<Rightarrow> nat \<Rightarrow> byte list \<Rightarrow> byte list" where
  "poke b off xs = take off b @ xs @ drop (off + length xs) b"

definition cstring_at :: "byte list \<Rightarrow> nat \<Rightarrow> byte list" where
  "cstring_at b off = takeWhile (\<lambda>c. c \<noteq> NUL) (drop off b)"

definition strlen_at :: "byte list \<Rightarrow> nat \<Rightarrow> nat" where
  "strlen_at b off = length (cstring_at b off)"

text \<open>
  \<^verbatim>\<open>!strncmp(b + off, lit, STRLENOF(lit))\<close> for a literal without NUL bytes: the
  bytes at the offset are exactly the literal's.
\<close>

definition has_prefix_at :: "byte list \<Rightarrow> nat \<Rightarrow> string \<Rightarrow> bool" where
  "has_prefix_at b off lit \<longleftrightarrow> take (length lit) (drop off b) = bytes_of lit"

text \<open>\<^verbatim>\<open>memchr(b, c, n)\<close>: the index of the first \<open>c\<close> among the first \<open>n\<close> bytes.\<close>

fun memchr :: "byte list \<Rightarrow> byte \<Rightarrow> nat \<Rightarrow> nat option" where
  "memchr [] c n = None"
| "memchr (x # xs) c n =
     (if n = 0 then None
      else if x = c then Some 0
      else map_option (\<lambda>i. i + 1) (memchr xs c (n - 1)))"

text \<open>
  \<^verbatim>\<open>fgets(buf, n, stdin)\<close> on the rest of the input: at most \<open>n - 1\<close> bytes, up to and
  including the first newline; NULL (\<open>None\<close>) when the input is exhausted.  The
  result is the chunk read and the input left.
\<close>

fun line_chunk :: "nat \<Rightarrow> byte list \<Rightarrow> byte list" where
  "line_chunk k [] = []"
| "line_chunk k (c # cs) =
     (if k = 0 then [] else if c = NL then [c] else c # line_chunk (k - 1) cs)"

definition fgets :: "nat \<Rightarrow> byte list \<Rightarrow> (byte list \<times> byte list) option" where
  "fgets n inp =
     (if inp = [] then None
      else let l = line_chunk (n - 1) inp in Some (l, drop (length l) inp))"

text \<open>
  The size argument of \<^verbatim>\<open>fgets\<close> is an \<^verbatim>\<open>int\<close>: the cast \<^verbatim>\<open>(int)len\<close> of a
  \<^verbatim>\<open>size_t\<close> keeps the value below \<open>2^31\<close>, and \<^verbatim>\<open>fgets\<close> is specified for a
  positive size only.  Outside that range the model stops with undefined behaviour.
\<close>

definition fgets_size :: "nat \<Rightarrow> nat option" where
  "fgets_size n = (if 0 < n \<and> n < 2 ^ 31 then Some n else None)"

subsection \<open>The storage engine's interface\<close>

text \<open>
  The header \<^verbatim>\<open>mdbx.h\<close> and the engine are not part of the loader's source.  Their
  flag constants are distinct bits, so a flag word is the set of the flags' names:
  \<^verbatim>\<open>|\<close> is union, a test \<^verbatim>\<open>flags & F\<close> is membership, and a word is nonzero when the
  set is not empty.  A return code is \<^verbatim>\<open>MDBX_SUCCESS\<close> (0), one of the codes the
  loader names, the \<^verbatim>\<open>EOF\<close> of \<^verbatim>\<open>readline\<close> (which \<^verbatim>\<open>main\<close> stores in the same
  variable), or another nonzero code.
\<close>

datatype dbi_flag = MDBX_REVERSEKEY | MDBX_DUPSORT | MDBX_INTEGERKEY | MDBX_DUPFIXED
  | MDBX_INTEGERDUP | MDBX_REVERSEDUP | MDBX_CREATE

datatype put_flag = MDBX_NOOVERWRITE | MDBX_NODUPDATA | MDBX_APPEND | MDBX_APPENDDUP

datatype env_flag = MDBX_UTTERLY_NOSYNC | MDBX_NOSUBDIR

datatype rc = MDBX_SUCCESS | RC_EOF | MDBX_KEYEXIST | MDBX_BAD_VALSIZE | MDBX_EINTR
  | MDBX_ERROR nat

text \<open>
  \<^verbatim>\<open>static int anyway_greater(const MDBX_val *a, const MDBX_val *b)\<close> returns 1.
  A comparator argument of \<^verbatim>\<open>mdbx_dbi_open_ex\<close> is NULL or this function.
\<close>

definition anyway_greater :: "byte list \<Rightarrow> byte list \<Rightarrow> int" where
  "anyway_greater a b = 1"

datatype comparator = Anyway_greater

fun comparator_fn :: "comparator \<Rightarrow> byte list \<Rightarrow> byte list \<Rightarrow> int" where
  "comparator_fn Anyway_greater = anyway_greater"

text \<open>
  The calls \<^verbatim>\<open>main\<close> makes on the engine, with the arguments it passes.  The handles
  are left out, except that \<^verbatim>\<open>mdbx_txn_abort\<close> records whether its transaction pointer
  is non-NULL.  The last seven constructors are the engine's operations that \<^verbatim>\<open>main\<close>
  never calls (reading, deleting, writing without a cursor, closing a cursor, dropping a
  table); they are there so that their absence from a run can be stated.
\<close>

datatype api_call =
    Env_create
  | Env_set_maxdbs nat
  | Env_set_geometry int int int int int int
  | Env_open "byte list" "env_flag set" nat
  | Env_get_maxvalsize_ex "dbi_flag set"
  | Txn_begin
  | Dbi_open_ex "byte list option" "dbi_flag set" "comparator option" "comparator option"
  | Cursor_open
  | Cursor_put "byte list" "byte list" "put_flag set"
  | Txn_commit
  | Txn_abort bool
  | Dbi_close
  | Env_close
  | Cursor_get "byte list"
  | Cursor_del
  | Cursor_close
  | Table_get "byte list"
  | Table_put "byte list" "byte list" "put_flag set"
  | Table_del "byte list"
  | Table_drop

text \<open>The messages written to the standard error stream.\<close>

datatype diag =
    Unsupported_version nat int
  | Unsupported_format nat "byte list"
  | Unsupported_type nat "byte list"
  | Invalid_mapaddr nat "byte list"
  | Invalid_mapsize nat "byte list"
  | Invalid_maxreaders nat "byte list"
  | Unexpected_format nat
  | Unrecognized_keyword nat "byte list"
  | Unexpected_end nat
  | Out_of_memory nat
  | Call_failed string rc
  | Mapsize_too_large "64 word"
  | Maxkeysize_failed nat
  | Failed_key_value nat
  | Skip_line nat rc
  | Txn_commit_failed nat rc
  | Freopen_failed "byte list"
  | Usage

subsection \<open>The program's surroundings and its state\<close>

text \<open>
  Everything outside the source is a parameter: the engine (the return code of a call,
  given the calls made before it), the C library's number scanners, the allocator, the
  signal flag, the files and the platform's \<^verbatim>\<open>INTPTR_MAX\<close>.
\<close>

record world =
  engine :: "(api_call \<times> rc) list \<Rightarrow> api_call \<Rightarrow> rc"
  maxvalsize :: nat
  user_break :: "(api_call \<times> rc) list \<Rightarrow> bool"
  realloc_ok :: "nat \<Rightarrow> bool"
  junk :: "nat \<Rightarrow> byte"
  atoi :: "byte list \<Rightarrow> int"
  sscanf_u64 :: "byte list \<Rightarrow> 64 word option"
  sscanf_u :: "byte list \<Rightarrow> 32 word option"
  sscanf_p :: "byte list \<Rightarrow> bool"
  INTPTR_MAX :: nat
  files :: "byte list \<Rightarrow> byte list option"

text \<open>\<^verbatim>\<open>MDBX_val\<close>: the block \<^verbatim>\<open>iov_base\<close> points to, and \<^verbatim>\<open>iov_len\<close>.\<close>

record mdbx_val =
  iov_base :: "byte list"
  iov_len :: nat

text \<open>
  The file's static variables, the input stream, and what the program has written and
  called so far.
\<close>

record state =
  stdin :: "byte list"
  Eof :: bool
  lineno :: nat
  mode :: "32 word"
  subname :: "byte list option"
  version :: int
  dbi_flags :: "dbi_flag set"
  mi_dxb_pagesize :: int
  mi_mapsize :: "64 word"
  mi_maxreaders :: "32 word"
  dbuf :: mdbx_val
  kbuf :: mdbx_val
  stderr :: "diag list"
  calls :: "(api_call \<times> rc) list"

definition PRINT :: "32 word" where "PRINT = 1"
definition NOHDR :: "32 word" where "NOHDR = 2"

datatype which = KBUF | DBUF

fun get_buf :: "which \<Rightarrow> state \<Rightarrow> mdbx_val" where
  "get_buf KBUF s = kbuf s"
| "get_buf DBUF s = dbuf s"

fun set_buf :: "which \<Rightarrow> mdbx_val \<Rightarrow> state \<Rightarrow> state" where
  "set_buf KBUF v s = s\<lparr>kbuf := v\<rparr>"
| "set_buf DBUF v s = s\<lparr>dbuf := v\<rparr>"

text \<open>
  The result of a function that may return normally with a value, return \<^verbatim>\<open>EOF\<close> or
  leave the program (\<open>Fail\<close>), or run into undefined behaviour.
\<close>

datatype 'a res = Done 'a state | Fail state | Undef state

definition say :: "diag \<Rightarrow> state \<Rightarrow> state" where
  "say d s = s\<lparr>stderr := stderr s @ [d]\<rparr>"

definition badend :: "state \<Rightarrow> state" where
  "badend s = say (Unexpected_end (lineno s)) s"

text \<open>
  \<^verbatim>\<open>fgets((char *)base + off, n, stdin)\<close> into a buffer: the chunk and its terminating
  NUL are stored at the offset.
\<close>

definition fgets_into :: "which \<Rightarrow> nat \<Rightarrow> nat \<Rightarrow> state \<Rightarrow> state option" where
  "fgets_into wh off n s =
     (case fgets n (stdin s) of
        None \<Rightarrow> None
      | Some (l, rest) \<Rightarrow>
          let b = get_buf wh s
          in Some (set_buf wh (b\<lparr>iov_base := poke (iov_base b) off (l @ [NUL])\<rparr>)
                     (s\<lparr>stdin := rest\<rparr>)))"

text \<open>
  \<^verbatim>\<open>realloc(base, n)\<close> when it succeeds: the old bytes up to the new size, followed by
  bytes the allocator leaves there.
\<close>

definition realloc :: "world \<Rightarrow> byte list \<Rightarrow> nat \<Rightarrow> byte list" where
  "realloc w base n = take n base @ map (junk w) [length base..<n]"

subsection \<open>\<^verbatim>\<open>readline\<close>\<close>

text \<open>
  The loop \<^verbatim>\<open>while (c1[len - 1] != '\n')\<close> of \<^verbatim>\<open>readline\<close>, which doubles the buffer
  until the line's newline has been read.  \<open>l2\<close> is the length of the text read so
  far; the byte tested is the last one of it.  With no text (\<open>l2 = 0\<close>) the test reads
  before the buffer.  \<^verbatim>\<open>realloc\<close> with size 0 is left undefined.
\<close>

function grow_line :: "world \<Rightarrow> which \<Rightarrow> nat \<Rightarrow> state \<Rightarrow> nat res" where
  "grow_line w wh l2 s =
     (let b = get_buf wh s in
      if l2 = 0 then Undef s
      else case peek (iov_base b) (l2 - 1) of
        None \<Rightarrow> Undef s
      | Some c \<Rightarrow>
          if c = NL then Done l2 s
          else if iov_len b = 0 then Undef s
          else if \<not> realloc_ok w (iov_len b * 2)
          then Fail (say (Out_of_memory (lineno s))
                       (set_buf wh (b\<lparr>iov_base := []\<rparr>) (s\<lparr>Eof := True\<rparr>)))
          else
            let s1 = set_buf wh (b\<lparr>iov_base := realloc w (iov_base b) (iov_len b * 2)\<rparr>) s
            in (case fgets_size (iov_len b + 1) of
                  None \<Rightarrow> Undef s1
                | Some n \<Rightarrow>
                   (case fgets_into wh l2 n s1 of
                      None \<Rightarrow> Fail (badend (s1\<lparr>Eof := True\<rparr>))
                    | Some s2 \<Rightarrow>
                        let b2 = get_buf wh s2;
                            s3 = set_buf wh (b2\<lparr>iov_len := iov_len b2 * 2\<rparr>) s2
                        in grow_line w wh (l2 + strlen_at (iov_base b2) l2) s3)))"
  by pat_completeness auto

lemma line_chunk_progress: "inp \<noteq> [] \<Longrightarrow> 0 < k \<Longrightarrow> line_chunk k inp \<noteq> []"
  by (cases inp) auto

lemma line_chunk_length: "length (line_chunk k inp) \<le> length inp"
  by (induction k inp rule: line_chunk.induct) auto

lemma fgets_shorter:
  assumes "fgets n inp = Some (l, rest)" "2 \<le> n"
  shows "length rest < length inp"
proof -
  from assms(1) have ne: "inp \<noteq> []" and l: "l = line_chunk (n - 1) inp"
    and r: "rest = drop (length l) inp"
    by (auto simp: fgets_def Let_def split: if_splits)
  from ne assms(2) have "l \<noteq> []" unfolding l by (intro line_chunk_progress) auto
  with ne r show ?thesis by (cases l) auto
qed

lemma stdin_set_buf [simp]: "stdin (set_buf wh v s) = stdin s"
  by (cases wh) auto

lemma get_set_buf [simp]: "get_buf wh (set_buf wh v s) = v"
  by (cases wh) auto

lemma set_buf_fields [simp]:
  "Eof (set_buf wh v s) = Eof s" "stderr (set_buf wh v s) = stderr s"
  "lineno (set_buf wh v s) = lineno s" "mode (set_buf wh v s) = mode s"
  "calls (set_buf wh v s) = calls s"
  by (cases wh; simp)+

lemma get_buf_upd [simp]:
  "get_buf wh (s\<lparr>stdin := x\<rparr>) = get_buf wh s"
  "get_buf wh (s\<lparr>lineno := n\<rparr>) = get_buf wh s"
  "get_buf wh (s\<lparr>Eof := e\<rparr>) = get_buf wh s"
  "get_buf wh (s\<lparr>stderr := d\<rparr>) = get_buf wh s"
  by (cases wh; simp)+

lemma fgets_into_shorter:
  assumes "fgets_into wh off n s = Some s'" "2 \<le> n"
  shows "length (stdin s') < length (stdin s)"
  using assms fgets_shorter[of n "stdin s"]
  by (auto simp: fgets_into_def Let_def split: option.splits prod.splits)

termination grow_line
proof (relation "measure (\<lambda>(w, wh, l2, s). length (stdin s))", goal_cases)
  case 1
  show ?case by simp
next
  case (2 w wh l2 s b c s1 n s2 b2 s3)
  from 2 have n: "n = iov_len b + 1" and pos: "iov_len b \<noteq> 0"
    by (auto simp: fgets_size_def split: if_splits)
  from 2 have "length (stdin s2) < length (stdin s1)"
    using fgets_into_shorter[of wh l2 n s1 s2] n pos by auto
  with 2 show ?case by simp
qed

declare grow_line.simps [simp del]

text \<open>
  The two decoding loops of \<^verbatim>\<open>readline\<close>, in place: \<open>c1\<close> is the index written,
  \<open>c2\<close> the index read, \<open>e\<close> the index of the line's end.  The result is the buffer
  and the final \<open>c1\<close>, or no index when the line is rejected.
\<close>

definition BACKSLASH :: byte where "BACKSLASH = 0x5C"

function decode_print :: "byte list \<Rightarrow> nat \<Rightarrow> nat \<Rightarrow> nat \<Rightarrow> byte list \<times> nat option" where
  "decode_print b c1 c2 e =
     (if c2 < e then
        (if b ! c2 = BACKSLASH then
           (if b ! (c2 + 1) = BACKSLASH
            then decode_print (b[c1 := BACKSLASH]) (c1 + 1) (c2 + 2) e
            else if c2 + 3 > e \<or> \<not> isxdigit (b ! (c2 + 1)) \<or> \<not> isxdigit (b ! (c2 + 2))
            then (b, None)
            else decode_print (b[c1 := ucast (unhex (b ! (c2 + 1)) (b ! (c2 + 2)))])
                   (c1 + 1) (c2 + 3) e)
         else decode_print (b[c1 := b ! c2]) (c1 + 1) (c2 + 1) e)
      else (b, Some c1))"
  by pat_completeness auto
termination
  by (relation "measure (\<lambda>(b, c1, c2, e). e - c2)") auto

declare decode_print.simps [simp del]

function decode_hex :: "byte list \<Rightarrow> nat \<Rightarrow> nat \<Rightarrow> nat \<Rightarrow> byte list \<times> nat option" where
  "decode_hex b c1 c2 e =
     (if c2 < e then
        (if \<not> isxdigit (b ! c2) \<or> \<not> isxdigit (b ! (c2 + 1)) then (b, None)
         else decode_hex (b[c1 := ucast (unhex (b ! c2) (b ! (c2 + 1)))]) (c1 + 1) (c2 + 2) e)
      else (b, Some c1))"
  by pat_completeness auto
termination
  by (relation "measure (\<lambda>(b, c1, c2, e). e - c2)") auto

declare decode_hex.simps [simp del]

text \<open>
  The start of \<^verbatim>\<open>readline\<close>: unless the input is plain text (\<^verbatim>\<open>NOHDR\<close>), a data line
  starts with a space; any other first byte ends the data section, regularly on the
  line \<^verbatim>\<open>DATA=END\<close> and with a complaint otherwise.
\<close>

definition readline_lead :: "which \<Rightarrow> state \<Rightarrow> unit res" where
  "readline_lead wh s =
     (if mode s AND NOHDR \<noteq> 0 then Done () s
      else case stdin s of
        [] \<Rightarrow> Fail (s\<lparr>Eof := True\<rparr>)
      | c # rest \<Rightarrow>
          let s1 = s\<lparr>stdin := rest\<rparr> in
          if c = 0x20 then Done () s1
          else
            let s2 = s1\<lparr>lineno := lineno s1 + 1\<rparr> in
            (case fgets_size (iov_len (get_buf wh s2)) of
               None \<Rightarrow> Undef s2
             | Some n \<Rightarrow>
                (case fgets_into wh 0 n s2 of
                   None \<Rightarrow> Fail (badend (s2\<lparr>Eof := True\<rparr>))
                 | Some s3 \<Rightarrow>
                     if c = 0x44 \<and> has_prefix_at (iov_base (get_buf wh s3)) 0 ''ATA=END''
                     then Fail s3
                     else Fail (badend (s3\<lparr>Eof := True\<rparr>)))))"

text \<open>
  \<^verbatim>\<open>static int readline(MDBX_val *out, MDBX_val *buf)\<close>: \<open>Done out s\<close> is the return
  value 0 with the bytes \<open>out\<close> points to, \<open>Fail s\<close> the return value \<^verbatim>\<open>EOF\<close>.
\<close>

definition readline :: "world \<Rightarrow> which \<Rightarrow> state \<Rightarrow> byte list res" where
  "readline w wh s0 =
     (case readline_lead wh s0 of
        Fail s \<Rightarrow> Fail s
      | Undef s \<Rightarrow> Undef s
      | Done _ s \<Rightarrow>
         (case fgets_size (iov_len (get_buf wh s)) of
            None \<Rightarrow> Undef s
          | Some n \<Rightarrow>
             (case fgets_into wh 0 n s of
                None \<Rightarrow> Fail (s\<lparr>Eof := True\<rparr>)
              | Some s1 \<Rightarrow>
                  let s2 = s1\<lparr>lineno := lineno s1 + 1\<rparr> in
                  (case grow_line w wh (strlen_at (iov_base (get_buf wh s2)) 0) s2 of
                     Fail s \<Rightarrow> Fail s
                   | Undef s \<Rightarrow> Undef s
                   | Done l2 s3 \<Rightarrow>
                       let buf = get_buf wh s3;
                           len = l2 - 1;
                           b = (iov_base buf)[len := NUL];
                           (b', r) = (if mode s3 AND PRINT \<noteq> 0 then decode_print b 0 0 len
                                      else if odd len then (b, None)
                                      else decode_hex b 0 0 len);
                           s4 = set_buf wh (buf\<lparr>iov_base := b'\<rparr>) s3
                       in (case r of
                             None \<Rightarrow> Fail (badend (s4\<lparr>Eof := True\<rparr>))
                           | Some n \<Rightarrow> Done (take n b') s4)))))"

subsection \<open>\<^verbatim>\<open>readhdr\<close>\<close>

text \<open>The table \<^verbatim>\<open>dbflags\<close> (its end marker left out) and the search through it.\<close>

definition dbflags :: "(dbi_flag \<times> string) list" where
  "dbflags = [(MDBX_REVERSEKEY, ''reversekey''), (MDBX_DUPSORT, ''dupsort''),
              (MDBX_INTEGERKEY, ''integerkey''), (MDBX_DUPFIXED, ''dupfixed''),
              (MDBX_INTEGERDUP, ''integerdup''), (MDBX_REVERSEDUP, ''reversedup'')]"

fun match_dbflag :: "byte list \<Rightarrow> (dbi_flag \<times> string) list \<Rightarrow> (dbi_flag \<times> string) option" where
  "match_dbflag b [] = None"
| "match_dbflag b ((flag, name) # fs) =
     (if has_prefix_at b 0 name \<and> has_prefix_at b (length name) ''=''
      then Some (flag, name) else match_dbflag b fs)"

text \<open>
  \<^verbatim>\<open>ptr = memchr(dbuf.iov_base, '\n', dbuf.iov_len); if (ptr) *ptr = '\0';\<close>
\<close>

definition chop_newline :: "state \<Rightarrow> state" where
  "chop_newline s =
     (case memchr (iov_base (dbuf s)) NL (iov_len (dbuf s)) of
        None \<Rightarrow> s
      | Some i \<Rightarrow> s\<lparr>dbuf := (dbuf s)\<lparr>iov_base := (iov_base (dbuf s))[i := NUL]\<rparr>\<rparr>)"

text \<open>
  The body of the loop of \<^verbatim>\<open>readhdr\<close>, for the line that \<^verbatim>\<open>fgets\<close> has stored in
  \<^verbatim>\<open>dbuf\<close>: it goes on with the next line, returns, or leaves the program with
  \<^verbatim>\<open>exit(EXIT_FAILURE)\<close>.
\<close>

datatype hdr_step = Hdr_continue state | Hdr_return state | Hdr_exit state

definition hdr_line :: "world \<Rightarrow> state \<Rightarrow> hdr_step" where
  "hdr_line w s =
    (let b = iov_base (dbuf s) in
     if has_prefix_at b 0 ''db_pagesize=''
     then Hdr_continue (s\<lparr>mi_dxb_pagesize := atoi w (cstring_at b 12)\<rparr>)
     else if has_prefix_at b 0 ''duplicates=''
     then Hdr_continue (s\<lparr>dbi_flags := dbi_flags s \<union> {MDBX_DUPSORT}\<rparr>)
     else if has_prefix_at b 0 ''VERSION=''
     then (let v = atoi w (cstring_at b 8); s1 = s\<lparr>version := v\<rparr>
           in if v > 3 then Hdr_exit (say (Unsupported_version (lineno s) v) s1)
              else Hdr_continue s1)
     else if has_prefix_at b 0 ''HEADER=END''
     then Hdr_return s
     else if has_prefix_at b 0 ''format=''
     then (if has_prefix_at b 7 ''print'' then Hdr_continue (s\<lparr>mode := mode s OR PRINT\<rparr>)
           else if \<not> has_prefix_at b 7 ''bytevalue''
           then Hdr_exit (say (Unsupported_format (lineno s) (cstring_at b 7)) s)
           else Hdr_continue s)
     else if has_prefix_at b 0 ''database=''
     then (let s1 = chop_newline s
           in Hdr_continue (s1\<lparr>subname := Some (cstring_at (iov_base (dbuf s1)) 9)\<rparr>))
     else if has_prefix_at b 0 ''type=''
     then (if \<not> has_prefix_at b 5 ''btree''
           then Hdr_exit (say (Unsupported_type (lineno s) (cstring_at b 5)) s)
           else Hdr_continue s)
     else if has_prefix_at b 0 ''mapaddr=''
     then (let s1 = chop_newline s; arg = cstring_at (iov_base (dbuf s1)) 8
           in if \<not> sscanf_p w arg then Hdr_exit (say (Invalid_mapaddr (lineno s) arg) s1)
              else Hdr_continue s1)
     else if has_prefix_at b 0 ''mapsize=''
     then (let s1 = chop_newline s; arg = cstring_at (iov_base (dbuf s1)) 8
           in case sscanf_u64 w arg of
                None \<Rightarrow> Hdr_exit (say (Invalid_mapsize (lineno s) arg) s1)
              | Some v \<Rightarrow> Hdr_continue (s1\<lparr>mi_mapsize := v\<rparr>))
     else if has_prefix_at b 0 ''maxreaders=''
     then (let s1 = chop_newline s; arg = cstring_at (iov_base (dbuf s1)) 11
           in case sscanf_u w arg of
                None \<Rightarrow> Hdr_exit (say (Invalid_maxreaders (lineno s) arg) s1)
              | Some v \<Rightarrow> Hdr_continue (s1\<lparr>mi_maxreaders := v\<rparr>))
     else
       (case match_dbflag b dbflags of
          Some (flag, name) \<Rightarrow>
            Hdr_continue (if has_prefix_at b (length name + 1) ''1''
                          then s\<lparr>dbi_flags := dbi_flags s \<union> {flag}\<rparr> else s)
        | None \<Rightarrow>
           (case memchr b 0x3D (iov_len (dbuf s)) of
              None \<Rightarrow> Hdr_exit (say (Unexpected_format (lineno s)) s)
            | Some i \<Rightarrow>
                let b1 = b[i := NUL]
                in Hdr_continue (say (Unrecognized_keyword (lineno s) (cstring_at b1 0))
                                   (s\<lparr>dbuf := (dbuf s)\<lparr>iov_base := b1\<rparr>\<rparr>)))))"

text \<open>
  The loop \<^verbatim>\<open>while (fgets(dbuf.iov_base, (int)dbuf.iov_len, stdin) != NULL)\<close> of
  \<^verbatim>\<open>readhdr\<close>; \<open>Done\<close> is the return, \<open>Fail\<close> the exit with \<^verbatim>\<open>EXIT_FAILURE\<close>.
\<close>

function readhdr_loop :: "world \<Rightarrow> state \<Rightarrow> unit res" where
  "readhdr_loop w s =
     (case fgets_size (iov_len (dbuf s)) of
        None \<Rightarrow> Undef s
      | Some n \<Rightarrow>
         (case fgets_into DBUF 0 n s of
            None \<Rightarrow> Done () (s\<lparr>Eof := True\<rparr>)
          | Some s1 \<Rightarrow>
             (case hdr_line w (s1\<lparr>lineno := lineno s1 + 1\<rparr>) of
                Hdr_continue s2 \<Rightarrow> readhdr_loop w s2
              | Hdr_return s2 \<Rightarrow> Done () s2
              | Hdr_exit s2 \<Rightarrow> Fail s2)))"
  by pat_completeness auto

lemma hdr_line_stdin: "hdr_line w s = Hdr_continue s' \<Longrightarrow> stdin s' = stdin s"
  by (auto simp: hdr_line_def Let_def chop_newline_def say_def
           split: if_splits option.splits prod.splits)

lemma hdr_line_empty:
  assumes "take 1 (iov_base (dbuf s)) = [NUL]" "iov_len (dbuf s) = 1"
  shows "hdr_line w s = Hdr_exit (say (Unexpected_format (lineno s)) s)"
proof -
  obtain r where b: "iov_base (dbuf s) = NUL # r"
    using assms(1) by (cases "iov_base (dbuf s)") auto
  have m: "memchr (NUL # r) 0x3D 1 = None"
    by (cases r) (simp_all add: NUL_def)
  show ?thesis
    using m assms(2) unfolding hdr_line_def b
    by (simp add: has_prefix_at_def bytes_of_def NUL_def dbflags_def)
qed

lemma line_chunk_zero: "line_chunk 0 inp = []"
  by (cases inp) simp_all

lemma fgets_into_one:
  assumes "fgets_into DBUF 0 1 s = Some s1"
  shows "take 1 (iov_base (dbuf s1)) = [NUL] \<and> iov_len (dbuf s1) = iov_len (dbuf s)"
  using assms
  by (auto simp: fgets_into_def fgets_def poke_def Let_def line_chunk_zero split: if_splits)

termination readhdr_loop
proof (relation "measure (\<lambda>(w, s). length (stdin s))", goal_cases)
  case 1
  show ?case by simp
next
  case (2 w s n s1 s2)
  have n: "n = iov_len (dbuf s)" "0 < n"
    using 2(1) by (auto simp: fgets_size_def split: if_splits)
  have st: "stdin s2 = stdin s1"
    using hdr_line_stdin[OF 2(3)] by simp
  have "n \<noteq> 1"
  proof
    assume n1: "n = 1"
    have "take 1 (iov_base (dbuf s1)) = [NUL]" "iov_len (dbuf s1) = 1"
      using fgets_into_one[of s s1] 2(2) n n1 by simp_all
    then have "hdr_line w (s1\<lparr>lineno := lineno s1 + 1\<rparr>)
                 = Hdr_exit (say (Unexpected_format (lineno s1 + 1)) (s1\<lparr>lineno := lineno s1 + 1\<rparr>))"
      using hdr_line_empty[of "s1\<lparr>lineno := lineno s1 + 1\<rparr>" w] by simp
    with 2(3) show False by simp
  qed
  with n have "2 \<le> n" by arith
  then have "length (stdin s1) < length (stdin s)"
    using fgets_into_shorter[OF 2(2)] by simp
  with st show ?case by simp
qed

declare readhdr_loop.simps [simp del]

text \<open>\<^verbatim>\<open>static void readhdr(void)\<close>: it clears \<^verbatim>\<open>dbi_flags\<close> and runs the loop.\<close>

definition readhdr :: "world \<Rightarrow> state \<Rightarrow> unit res" where
  "readhdr w s = readhdr_loop w (s\<lparr>dbi_flags := {}\<rparr>)"

subsection \<open>\<^verbatim>\<open>main\<close>\<close>



text \<open>
  The local variables of \<^verbatim>\<open>main\<close>.  \<open>txn\<close> tells whether the transaction pointer is
  non-NULL; \<open>prevk\<close> holds the \<^verbatim>\<open>prevk.iov_len\<close> bytes \<^verbatim>\<open>prevk.iov_base\<close> points to;
  \<open>kbuf_len0\<close> is \<^verbatim>\<open>kbuf.iov_len\<close> at the time \<^verbatim>\<open>prevk.iov_base\<close> was set to the
  second half of the key buffer's block.
\<close>

record locals =
  envflags :: "env_flag set"
  putflags :: "put_flag set"
  append_opt :: bool
  quiet :: bool
  rescue :: bool
  txn :: bool
  prevk :: "byte list"
  kbuf_len0 :: nat
  batch :: nat



text \<open>One call of the engine: its return code is the engine's answer, and it is recorded.\<close>

definition mdbx :: "world \<Rightarrow> api_call \<Rightarrow> state \<Rightarrow> rc \<times> state" where
  "mdbx w c s = (let r = engine w (calls s) c in (r, s\<lparr>calls := calls s @ [(c, r)]\<rparr>))"



text \<open>
  The body of the inner loop \<^verbatim>\<open>while (1)\<close> of \<^verbatim>\<open>main\<close>, for one record: it goes
  round again (after a put, or by \<^verbatim>\<open>continue\<close>), or leaves the loop by \<^verbatim>\<open>break\<close>, by
  \<^verbatim>\<open>goto txn_abort\<close> or by \<^verbatim>\<open>goto env_close\<close>, with the value of \<^verbatim>\<open>rc\<close>.
  \<^verbatim>\<open>prevk.iov_base\<close> points into the block of the key buffer; once \<^verbatim>\<open>readline\<close> has
  reallocated that block (its \<^verbatim>\<open>iov_len\<close> has grown), the pointer is invalid and
  comparing or copying through it is undefined.
\<close>

text \<open>
  The flags for appending, and the update of \<^verbatim>\<open>prevk\<close>:
  \<^verbatim>\<open>if (append) { appflag = MDBX_APPEND; if (dbi_flags & MDBX_DUPSORT) { if (prevk.iov_len
  == key.iov_len && memcmp(prevk.iov_base, key.iov_base, key.iov_len) == 0) appflag =
  MDBX_APPEND | MDBX_APPENDDUP; else memcpy(prevk.iov_base, key.iov_base, prevk.iov_len =
  key.iov_len); } }\<close>
\<close>

definition append_flags :: "locals \<Rightarrow> state \<Rightarrow> byte list \<Rightarrow> put_flag set \<times> locals" where
  "append_flags l s key =
     (if append_opt l then
        (if MDBX_DUPSORT \<in> dbi_flags s then
           (if prevk l = key then ({MDBX_APPEND, MDBX_APPENDDUP}, l)
            else ({MDBX_APPEND}, l\<lparr>prevk := key\<rparr>))
         else ({MDBX_APPEND}, l))
      else ({}, l))"

datatype leave = Break | Goto_txn_abort | Goto_env_close | Undefined

datatype step = Again locals state | Leave leave locals state rc





lemma stdin_say [simp]: "stdin (say d s) = stdin s"
  by (simp add: say_def)

lemma Eof_say [simp]: "Eof (say d s) = Eof s"
  by (simp add: say_def)

lemma stdin_mdbx [simp]: "stdin (snd (mdbx w c s)) = stdin s"
  by (simp add: mdbx_def Let_def)

lemma Eof_mdbx [simp]: "Eof (snd (mdbx w c s)) = Eof s"
  by (simp add: mdbx_def Let_def)










































subsection \<open>Notions for statements about runs\<close>

text \<open>
  \<open>extends P s s'\<close>: from \<open>s\<close> to \<open>s'\<close> the program has only made calls that satisfy
  \<open>P\<close>.  \<open>loader_call app pf\<close> describes the calls of a run in which appending is on
  or off (\<open>app\<close>) and the put flags of the options are \<open>pf\<close>.
\<close>

text \<open>What \<^verbatim>\<open>readline\<close> leaves alone: the calls made, the mode and the table settings.\<close>

definition settings :: "state \<Rightarrow> (api_call \<times> rc) list \<times> 32 word \<times> dbi_flag set \<times> byte list option" where
  "settings s = (calls s, mode s, dbi_flags s, subname s)"


definition same_opts :: "locals \<Rightarrow> locals \<Rightarrow> bool" where
  "same_opts l l' \<longleftrightarrow> putflags l' = putflags l \<and> append_opt l' = append_opt l
     \<and> rescue l' = rescue l \<and> envflags l' = envflags l \<and> kbuf_len0 l' = kbuf_len0 l"

definition loader_call :: "bool \<Rightarrow> put_flag set \<Rightarrow> api_call \<Rightarrow> bool" where
  "loader_call app pf c =
     (case c of
        Env_create \<Rightarrow> True
      | Env_set_maxdbs n \<Rightarrow> n = 2
      | Env_set_geometry a b c d e f \<Rightarrow> a = 0 \<and> b = 0 \<and> d = - 1 \<and> e = - 1 \<and> f = - 1
      | Env_open p f m \<Rightarrow> True
      | Env_get_maxvalsize_ex f \<Rightarrow> True
      | Txn_begin \<Rightarrow> True
      | Dbi_open_ex n f kc dc \<Rightarrow>
          MDBX_CREATE \<in> f \<and> kc = (if app then Some Anyway_greater else None) \<and> dc = kc
      | Cursor_open \<Rightarrow> True
      | Cursor_put k d f \<Rightarrow>
          pf \<subseteq> f \<and> f \<subseteq> pf \<union> {MDBX_APPEND, MDBX_APPENDDUP} \<and> (MDBX_APPEND \<in> f) = (app \<or> MDBX_APPEND \<in> pf)
      | Txn_commit \<Rightarrow> True
      | Txn_abort b \<Rightarrow> True
      | Dbi_close \<Rightarrow> True
      | Env_close \<Rightarrow> True
      | _ \<Rightarrow> False)"







text \<open>
  The reference for the byte-value format: the bytes denoted by a text of hexadecimal
  digit pairs.
\<close>

fun hex_pairs :: "byte list \<Rightarrow> byte list" where
  "hex_pairs (a # b # xs) = ucast (unhex a b) # hex_pairs xs"
| "hex_pairs xs = []"



fun outcome :: "'a res \<Rightarrow> 'a option \<times> bool \<times> diag list" where
  "outcome (Done x s) = (Some x, Eof s, stderr s)"
| "outcome (Fail s) = (None, Eof s, stderr s)"
| "outcome (Undef s) = (None, Eof s, stderr s)"

fun is_undef :: "'a res \<Rightarrow> bool" where
  "is_undef (Undef s) = True"
| "is_undef r = False"

subsection \<open>Surroundings and states for the examples\<close>

text \<open>
  A C library for the examples: decimal scanners without overflow, an allocator that
  never fails and hands out zeroed memory, and an engine that accepts every call.
\<close>

definition isspace :: "byte \<Rightarrow> bool" where
  "isspace c \<longleftrightarrow> c = 0x20 \<or> (0x09 \<le> c \<and> c \<le> 0x0D)"

definition isdigit :: "byte \<Rightarrow> bool" where
  "isdigit c \<longleftrightarrow> 0x30 \<le> c \<and> c \<le> 0x39"

fun dec_value :: "nat \<Rightarrow> byte list \<Rightarrow> nat" where
  "dec_value acc [] = acc"
| "dec_value acc (c # cs) = (if isdigit c then dec_value (acc * 10 + (unat c - 48)) cs else acc)"

definition scan_decimal :: "byte list \<Rightarrow> nat option" where
  "scan_decimal s =
     (case dropWhile isspace s of
        [] \<Rightarrow> None
      | c # cs \<Rightarrow> if isdigit c then Some (dec_value 0 (c # cs)) else None)"

definition atoi_decimal :: "byte list \<Rightarrow> int" where
  "atoi_decimal s = (case scan_decimal s of None \<Rightarrow> 0 | Some n \<Rightarrow> int n)"

definition world0 :: world where
  "world0 = \<lparr>engine = (\<lambda>h c. MDBX_SUCCESS), maxvalsize = 1980,
       user_break = (\<lambda>h. False), realloc_ok = (\<lambda>n. True), junk = (\<lambda>i. 0),
       atoi = atoi_decimal,
       sscanf_u64 = (\<lambda>s. map_option word_of_nat (scan_decimal s)),
       sscanf_u = (\<lambda>s. map_option word_of_nat (scan_decimal s)),
       sscanf_p = (\<lambda>s. False),
       INTPTR_MAX = 2 ^ 63 - 1, files = (\<lambda>p. None)\<rparr>"

text \<open>
  The state when \<^verbatim>\<open>main\<close> starts reading, with a zeroed data buffer of 4096 bytes and
  a key buffer for \<^const>\<open>maxvalsize\<close> \<open>= 1980\<close>.
\<close>

definition state0 :: state where
  "state0 = \<lparr>stdin = [], Eof = False, lineno = 0, mode = 0, subname = None, version = 0,
       dbi_flags = {}, mi_dxb_pagesize = 0, mi_mapsize = 0, mi_maxreaders = 0,
       dbuf = \<lparr>iov_base = replicate 4096 0, iov_len = 4096\<rparr>,
       kbuf = \<lparr>iov_base = replicate 7924 0, iov_len = 3962\<rparr>,
       stderr = [], calls = []\<rparr>"







section \<open>Properties of \<^verbatim>\<open>unhex\<close>\<close>

lemma isxdigit_enum: "isxdigit c \<Longrightarrow> c \<in> set hex_digits"
proof -
  assume h: "isxdigit c"
  have u: "unat c \<in> {48..57} \<union> {65..70} \<union> {97..102}"
    using h by (auto simp: isxdigit_def word_le_nat_alt)
  then have "unat c \<in> unat ` set hex_digits"
    unfolding hex_digits_def by (simp add: atLeastAtMost_def) arith
  then obtain x where "x \<in> set hex_digits" "unat c = unat x" by blast
  then have "c = x" "x \<in> set hex_digits" by (simp_all add: word_unat_eq_iff)
  then show ?thesis by simp
qed

lemma unhex_nib: "unhex a b = push_bit 4 (nib a) OR nib b"
  by (simp add: unhex_def nib_def Let_def)

lemma nib_val: "c \<in> set hex_digits \<Longrightarrow> nib c = of_nat (hexval c)"
  unfolding hex_digits_def by (auto simp: nib_def hexval_def)

lemma hexval_lt: "c \<in> set hex_digits \<Longrightarrow> hexval c < 16"
  unfolding hex_digits_def by (auto simp: hexval_def)

lemma nib_lower: "c \<in> set hex_digits \<Longrightarrow> nib (hex_lower c) = nib c"
  unfolding hex_digits_def by (auto simp: nib_def hex_lower_def)

lemma nib_upper: "c \<in> set hex_digits \<Longrightarrow> nib (hex_upper c) = nib c"
  unfolding hex_digits_def by (auto simp: nib_def hex_upper_def)

lemma low_nibble_fits: "y < 16 \<Longrightarrow> take_bit 4 (word_of_nat y :: 32 word) = word_of_nat y"
proof -
  assume "y < 16"
  then have "take_bit 4 y = y" by (simp add: take_bit_nat_eq_self_iff)
  then show ?thesis by (metis of_nat_take_bit)
qed

lemma nibbles_disjoint: "push_bit 4 (a :: 32 word) AND take_bit 4 b = 0"
  by (rule bit_word_eqI) (auto simp: bit_simps)

lemma nibbles_or:
  assumes "x < 16" "y < 16"
  shows "push_bit 4 (word_of_nat x :: 32 word) OR word_of_nat y = word_of_nat (16 * x + y)"
proof -
  have "push_bit 4 (word_of_nat x :: 32 word) AND word_of_nat y = 0"
    using nibbles_disjoint[of "word_of_nat x" "word_of_nat y"] low_nibble_fits[OF assms(2)]
    by simp
  then have "push_bit 4 (word_of_nat x :: 32 word) OR word_of_nat y
               = push_bit 4 (word_of_nat x) + word_of_nat y"
    by (simp add: disjunctive_add_eq_or)
  then show ?thesis by (simp add: push_bit_eq_mult)
qed

lemma sint_small: assumes "x < 256" shows "sint (word_of_nat x :: 32 word) = int x"
proof -
  have "- (2 ^ 31) \<le> int x" "int x < 2 ^ 31" using assms by simp_all
  then have "signed_take_bit 31 (int x) = int x"
    by (simp add: signed_take_bit_int_eq_self)
  then show ?thesis by (simp add: signed_of_nat)
qed

lemma unhex_of_digits:
  assumes "isxdigit a" "isxdigit b"
  shows "unhex a b = word_of_nat (16 * hexval a + hexval b)" "16 * hexval a + hexval b < 256"
proof -
  note da = isxdigit_enum[OF assms(1)]
  note db = isxdigit_enum[OF assms(2)]
  show "unhex a b = word_of_nat (16 * hexval a + hexval b)"
    using da db by (simp add: unhex_nib nibbles_or nib_val hexval_lt)
  show "16 * hexval a + hexval b < 256"
    using hexval_lt[OF da] hexval_lt[OF db] by arith
qed

text \<open>
  Claim C9.  For two bytes that are both ASCII hexadecimal digits, \<^const>\<open>unhex\<close> returns
  the value of the two-digit hexadecimal number they denote, the first byte being the
  high nibble; and the case of a letter digit does not matter: replacing either digit by
  its lower-case or its upper-case form gives the same result.
\<close>

theorem unhex_value:
  assumes "isxdigit a" and "isxdigit b"
  shows "sint (unhex a b) = int (16 * hexval a + hexval b)
         \<and> unhex (hex_lower a) (hex_lower b) = unhex a b
         \<and> unhex (hex_upper a) (hex_upper b) = unhex a b"
proof -
  note da = isxdigit_enum[OF assms(1)]
  note db = isxdigit_enum[OF assms(2)]
  have "sint (unhex a b) = int (16 * hexval a + hexval b)"
    using unhex_of_digits[OF assms] sint_small[of "16 * hexval a + hexval b"] by simp
  moreover have "unhex (hex_lower a) (hex_lower b) = unhex a b"
    using da db by (simp add: unhex_nib nib_lower)
  moreover have "unhex (hex_upper a) (hex_upper b) = unhex a b"
    using da db by (simp add: unhex_nib nib_upper)
  ultimately show ?thesis by simp
qed

theorem unhex_value_witness:
  "isxdigit 0x61 \<and> isxdigit 0x46 \<and> sint (unhex 0x61 0x46) = 175
   \<and> unhex (hex_upper 0x61) (hex_lower 0x46) = unhex 0x61 0x46"
proof -
  have a: "isxdigit 0x61" and b: "isxdigit 0x46" by (simp_all add: isxdigit_def)
  have "hexval 0x61 = 10" "hexval 0x46 = 15" by (simp_all add: hexval_def)
  then show ?thesis
    using a b unhex_value[OF a b] by (simp add: unhex_def hex_upper_def hex_lower_def)
qed

section \<open>Properties of \<^verbatim>\<open>readline\<close>\<close>

subsection \<open>Buffers\<close>

lemma line_chunk_line: "NL \<notin> set q \<Longrightarrow> line_chunk k (q @ NL # rest) = take k (q @ [NL])"
  by (induction q arbitrary: k) (auto simp: take_Cons')

lemma fgets_whole:
  assumes "NL \<notin> set q" "length q + 1 \<le> n - 1"
  shows "fgets n (q @ NL # rest) = Some (q @ [NL], rest)"
  using assms by (simp add: fgets_def line_chunk_line)

lemma fgets_part:
  assumes "NL \<notin> set q" "n - 1 \<le> length q"
  shows "fgets n (q @ NL # rest) = Some (take (n - 1) q, drop (n - 1) q @ NL # rest)"
  using assms by (simp add: fgets_def line_chunk_line min_def)

lemma strlen_at_poke:
  assumes "NUL \<notin> set xs" "off \<le> length b"
  shows "strlen_at (poke b off (xs @ [NUL])) off = length xs"
proof -
  have "takeWhile (\<lambda>c. c \<noteq> NUL) (xs @ NUL # r) = xs" for r
    using assms(1) by (induction xs) auto
  then show ?thesis
    using assms(2) by (simp add: strlen_at_def cstring_at_def poke_def)
qed

lemma take_poke:
  assumes "off \<le> length b"
  shows "take (off + length xs) (poke b off (xs @ ys)) = take off b @ xs"
  using assms by (simp add: poke_def)

lemma length_poke:
  assumes "off + length ys \<le> length b"
  shows "length (poke b off ys) = length b"
  using assms by (simp add: poke_def)

lemma length_realloc [simp]: "length (realloc w base n) = n"
  by (simp add: realloc_def)

lemma take_realloc: "k \<le> length base \<Longrightarrow> k \<le> n \<Longrightarrow> take k (realloc w base n) = take k base"
  by (simp add: realloc_def)

lemma grow_line_done:
  assumes "l2 \<noteq> 0" "peek (iov_base (get_buf wh s)) (l2 - 1) = Some NL"
  shows "grow_line w wh l2 s = Done l2 s"
  using assms by (simp add: grow_line.simps[of w wh l2 s])

lemma grow_line_step:
  assumes b: "get_buf wh s = b"
    and l2: "l2 \<noteq> 0" "l2 < length (iov_base b)" "iov_base b ! (l2 - 1) \<noteq> NL"
    and len: "iov_len b \<noteq> 0" "iov_len b + 1 < 2 ^ 31"
    and alloc: "realloc_ok w (iov_len b * 2)"
    and rd: "fgets (iov_len b + 1) (stdin s) = Some (chunk, rest)"
  shows "grow_line w wh l2 s =
         grow_line w wh (l2 + strlen_at (poke (realloc w (iov_base b) (iov_len b * 2)) l2 (chunk @ [NUL])) l2)
           (set_buf wh \<lparr>iov_base = poke (realloc w (iov_base b) (iov_len b * 2)) l2 (chunk @ [NUL]),
                        iov_len = iov_len b * 2\<rparr> (s\<lparr>stdin := rest\<rparr>))"
proof -
  have in_range: "l2 - 1 < length (iov_base b)" using l2 by arith
  show ?thesis
    using assms in_range
    apply (simp add: grow_line.simps[of w wh l2 s] peek_def fgets_size_def fgets_into_def Let_def)
    apply (cases wh; cases b; simp)
    done
qed


lemma grow_line_last:
  assumes b: "get_buf wh s = b"
    and inp: "stdin s = q @ NL # rest" and q: "NL \<notin> set q" "NUL \<notin> set q"
    and pre: "take l2 (iov_base b) = pre" "NL \<notin> set pre" "l2 \<noteq> 0"
    and sz: "l2 + 1 = iov_len b" "iov_len b \<le> length (iov_base b)"
    and alloc: "realloc_ok w (iov_len b * 2)"
    and bound: "iov_len b + 1 < 2 ^ 31"
    and fits: "length q + 1 \<le> iov_len b"
  shows "\<exists>s'. grow_line w wh (l2 :: nat) s = Done (l2 + length q + 1) s'
            \<and> take (l2 + length q + 1) (iov_base (get_buf wh s')) = pre @ q @ [NL]
            \<and> l2 + length q + 1 < length (iov_base (get_buf wh s'))
            \<and> stdin s' = rest \<and> Eof s' = Eof s \<and> stderr s' = stderr s
            \<and> lineno s' = lineno s \<and> mode s' = mode s"
proof -
  let ?n = "iov_len b"
  let ?base1 = "realloc w (iov_base b) (?n * 2)"
  let ?base2 = "poke ?base1 l2 ((q @ [NL]) @ [NUL])"
  let ?s3 = "set_buf wh \<lparr>iov_base = ?base2, iov_len = ?n * 2\<rparr> (s\<lparr>stdin := rest\<rparr>)"
  have l2len: "l2 < length (iov_base b)" using sz by arith
  have lenpre: "length pre = l2" using pre(1) l2len by auto
  have lastpre: "iov_base b ! (l2 - 1) \<noteq> NL"
  proof -
    have "l2 - 1 < length pre" using lenpre pre(3) by simp
    then have "pre ! (l2 - 1) \<in> set pre" by simp
    moreover have "pre ! (l2 - 1) = iov_base b ! (l2 - 1)"
      using pre(1)[symmetric] pre(3) by simp
    ultimately show ?thesis using pre(2) by auto
  qed
  have n0: "?n \<noteq> 0" using sz by simp
  have rd: "fgets (?n + 1) (stdin s) = Some (q @ [NL], rest)"
    using inp q(1) fits by (simp add: fgets_whole)
  have l2le: "l2 \<le> length ?base1" using sz by simp
  have nonul: "NUL \<notin> set (q @ [NL])" using q(2) by (simp add: NL_def NUL_def)
  have sl: "strlen_at ?base2 l2 = length q + 1"
    using strlen_at_poke[OF nonul l2le] by simp
  have step: "grow_line w wh l2 s = grow_line w wh (l2 + (length q + 1)) ?s3"
    using grow_line_step[OF b pre(3) l2len lastpre n0 bound alloc rd] sl by simp
  have tk1: "take l2 ?base1 = pre"
    using take_realloc[of l2 "iov_base b" "?n * 2" w] l2len sz pre(1) by simp
  have tk: "take (l2 + (length q + 1)) ?base2 = pre @ q @ [NL]"
    using take_poke[OF l2le, of "q @ [NL]" "[NUL]"] tk1 by simp
  have len2: "length ?base2 = ?n * 2"
    using length_poke[of l2 "(q @ [NL]) @ [NUL]" ?base1] fits sz by simp
  have inr: "l2 + length q < length ?base2" using len2 fits sz by simp
  have "?base2 ! (l2 + length q) = take (l2 + (length q + 1)) ?base2 ! (l2 + length q)"
    by simp
  also have "\<dots> = NL" unfolding tk using lenpre by (simp add: nth_append)
  finally have "peek ?base2 (l2 + (length q + 1) - 1) = Some NL"
    using inr by (simp add: peek_def)
  then have fin: "grow_line w wh (l2 + (length q + 1)) ?s3 = Done (l2 + (length q + 1)) ?s3"
    by (intro grow_line_done) simp_all
  have "l2 + length q + 1 < length ?base2" using len2 fits sz by simp
  with step fin tk show ?thesis by simp
qed


lemma grow_line_more:
  assumes b: "get_buf wh s = b"
    and inp: "stdin s = q @ NL # rest" and q: "NL \<notin> set q" "NUL \<notin> set q"
    and pre: "take l2 (iov_base b) = pre" "NL \<notin> set pre" "l2 \<noteq> 0"
    and sz: "l2 + 1 = iov_len b" "iov_len b \<le> length (iov_base b)"
    and alloc: "realloc_ok w (iov_len b * 2)"
    and bound: "iov_len b + 1 < 2 ^ 31"
    and more: "iov_len b \<le> length q"
  shows "\<exists>s3 b3. grow_line w wh (l2 :: nat) s = grow_line w wh (l2 + iov_len b) s3
            \<and> get_buf wh s3 = b3
            \<and> stdin s3 = drop (iov_len b) q @ NL # rest
            \<and> take (l2 + iov_len b) (iov_base b3) = pre @ take (iov_len b) q
            \<and> iov_len b3 = iov_len b * 2 \<and> length (iov_base b3) = iov_len b * 2
            \<and> Eof s3 = Eof s \<and> stderr s3 = stderr s
            \<and> lineno s3 = lineno s \<and> mode s3 = mode s"
proof -
  let ?n = "iov_len b"
  let ?base1 = "realloc w (iov_base b) (?n * 2)"
  let ?base2 = "poke ?base1 l2 (take ?n q @ [NUL])"
  let ?s3 = "set_buf wh \<lparr>iov_base = ?base2, iov_len = ?n * 2\<rparr>
               (s\<lparr>stdin := drop ?n q @ NL # rest\<rparr>)"
  have l2len: "l2 < length (iov_base b)" using sz by arith
  have lenpre: "length pre = l2" using pre(1) l2len by auto
  have lastpre: "iov_base b ! (l2 - 1) \<noteq> NL"
  proof -
    have "l2 - 1 < length pre" using lenpre pre(3) by simp
    then have "pre ! (l2 - 1) \<in> set pre" by simp
    moreover have "pre ! (l2 - 1) = iov_base b ! (l2 - 1)"
      using pre(1)[symmetric] pre(3) by simp
    ultimately show ?thesis using pre(2) by auto
  qed
  have n0: "?n \<noteq> 0" using sz by simp
  have rd: "fgets (?n + 1) (stdin s) = Some (take ?n q, drop ?n q @ NL # rest)"
    using inp q(1) more fgets_part[of q "?n + 1" rest] by simp
  have l2le: "l2 \<le> length ?base1" using sz by simp
  have nonul: "NUL \<notin> set (take ?n q)" using q(2) by (auto dest: in_set_takeD)
  have lt: "length (take ?n q) = ?n" using more by simp
  have sl: "strlen_at ?base2 l2 = ?n"
    using strlen_at_poke[OF nonul l2le] lt by simp
  have step: "grow_line w wh l2 s = grow_line w wh (l2 + ?n) ?s3"
    using grow_line_step[OF b pre(3) l2len lastpre n0 bound alloc rd] sl by simp
  have tk1: "take l2 ?base1 = pre"
    using take_realloc[of l2 "iov_base b" "?n * 2" w] l2len sz pre(1) by simp
  have tk: "take (l2 + ?n) ?base2 = pre @ take ?n q"
    using take_poke[OF l2le, of "take ?n q" "[NUL]"] tk1 lt by simp
  have len2: "length ?base2 = ?n * 2"
    using length_poke[of l2 "take ?n q @ [NUL]" ?base1] lt sz by simp
  show ?thesis
    using step tk len2 by (intro exI[of _ ?s3] exI[of _ "get_buf wh ?s3"]) simp
qed

lemma grow_line_reads:
  assumes "get_buf wh s = b"
    and "stdin s = q @ NL # rest" and "NL \<notin> set q" and "NUL \<notin> set q"
    and "take l2 (iov_base b) = pre" and "NL \<notin> set pre" and "l2 \<noteq> 0"
    and "l2 + 1 = iov_len b" and "iov_len b \<le> length (iov_base b)"
    and "\<forall>n. realloc_ok w n"
    and "l2 + length q + 2 < 2 ^ 31"
  shows "\<exists>s'. grow_line w wh (l2 :: nat) s = Done (l2 + length q + 1) s'
            \<and> take (l2 + length q + 1) (iov_base (get_buf wh s')) = pre @ q @ [NL]
            \<and> l2 + length q + 1 < length (iov_base (get_buf wh s'))
            \<and> stdin s' = rest \<and> Eof s' = Eof s \<and> stderr s' = stderr s
            \<and> lineno s' = lineno s \<and> mode s' = mode s"
  using assms
proof (induction "length q" arbitrary: q s b l2 pre rule: less_induct)
  case less
  note b = less.prems(1) and inp = less.prems(2) and q = less.prems(3,4)
    and pre = less.prems(5,6,7) and sz = less.prems(8,9) and al = less.prems(10)
    and bd = less.prems(11)
  have alloc: "realloc_ok w (iov_len b * 2)" using al by simp
  have bound: "iov_len b + 1 < 2 ^ 31" using sz(1) bd by simp
  show ?case
  proof (cases "length q + 1 \<le> iov_len b")
    case True
    show ?thesis
      by (rule grow_line_last[OF b inp q pre sz alloc bound True])
  next
    case False
    then have more: "iov_len b \<le> length q" by simp
    obtain s3 b3 where s3: "grow_line w wh l2 s = grow_line w wh (l2 + iov_len b) s3"
      "get_buf wh s3 = b3" "stdin s3 = drop (iov_len b) q @ NL # rest"
      "take (l2 + iov_len b) (iov_base b3) = pre @ take (iov_len b) q"
      "iov_len b3 = iov_len b * 2" "length (iov_base b3) = iov_len b * 2"
      "Eof s3 = Eof s" "stderr s3 = stderr s" "lineno s3 = lineno s" "mode s3 = mode s"
      using grow_line_more[OF b inp q pre sz alloc bound more] by blast
    have shorter: "length (drop (iov_len b) q) < length q" using more sz(1) by simp
    have q3: "NL \<notin> set (drop (iov_len b) q)" "NUL \<notin> set (drop (iov_len b) q)"
      using q by (auto dest: in_set_dropD)
    have pre3: "NL \<notin> set (pre @ take (iov_len b) q)" "l2 + iov_len b \<noteq> 0"
      using pre q sz by (auto dest: in_set_takeD)
    have sz3: "l2 + iov_len b + 1 = iov_len b3" "iov_len b3 \<le> length (iov_base b3)"
      using s3(5,6) sz(1) by simp_all
    have bd3: "l2 + iov_len b + length (drop (iov_len b) q) + 2 < 2 ^ 31"
      using bd more by simp
    obtain s' where s': "grow_line w wh (l2 + iov_len b) s3
           = Done (l2 + iov_len b + length (drop (iov_len b) q) + 1) s'"
        "take (l2 + iov_len b + length (drop (iov_len b) q) + 1) (iov_base (get_buf wh s'))
           = (pre @ take (iov_len b) q) @ drop (iov_len b) q @ [NL]"
        "l2 + iov_len b + length (drop (iov_len b) q) + 1 < length (iov_base (get_buf wh s'))"
        "stdin s' = rest" "Eof s' = Eof s3" "stderr s' = stderr s3"
        "lineno s' = lineno s3" "mode s' = mode s3"
      using less.hyps[OF shorter s3(2) s3(3) q3 s3(4) pre3 sz3 al bd3] by blast
    have eq: "l2 + iov_len b + length (drop (iov_len b) q) + 1 = l2 + length q + 1"
      using more by simp
    show ?thesis
      using s3(1,7-10) s' unfolding eq by (intro exI[of _ s']) simp
  qed
qed

subsection \<open>The byte-value decoder\<close>

lemma length_hex_pairs: "length (hex_pairs p) = length p div 2"
  by (induction p rule: hex_pairs.induct) auto

lemma hex_pairs_nth:
  "i < length p div 2 \<Longrightarrow> hex_pairs p ! i = ucast (unhex (p ! (2 * i)) (p ! (2 * i + 1)))"
proof (induction p arbitrary: i rule: hex_pairs.induct)
  case (1 a b xs)
  then show ?case by (cases i) auto
qed auto

lemma decode_hex_correct:
  assumes "c2 = 2 * c1" "e \<le> length b" "even e" "c2 \<le> e"
  shows "if (\<forall>x \<in> set (drop c2 (take e b)). isxdigit x)
         then (\<exists>b'. decode_hex b c1 c2 e = (b', Some (e div 2))
                 \<and> take (e div 2) b' = take c1 b @ hex_pairs (drop c2 (take e b))
                 \<and> length b' = length b)
         else (\<exists>b'. decode_hex b c1 c2 e = (b', None) \<and> length b' = length b)"
  using assms
proof (induction b c1 c2 e rule: decode_hex.induct)
  case (1 b c1 c2 e)
  show ?case
  proof (cases "c2 < e")
    case False
    then have ce: "c2 = e" using "1.prems" by simp
    have r: "decode_hex b c1 c2 e = (b, Some c1)"
      using False by (simp add: decode_hex.simps[of b c1 c2 e])
    have "e div 2 = c1" using ce "1.prems"(1) by simp
    then show ?thesis
      unfolding r using ce by simp
  next
    case True
    then have c22: "c2 + 2 \<le> e" using "1.prems" by presburger
    have dr: "drop c2 (take e b) = b ! c2 # b ! (c2 + 1) # drop (c2 + 2) (take e b)"
      using c22 "1.prems"(2)
      by (metis Cons_nth_drop_Suc Suc_eq_plus1 add_2_eq_Suc' add_lessD1 length_take less_add_one
          min.absorb2 nth_take order_less_le_trans plus_1_eq_Suc True)
    show ?thesis
    proof (cases "isxdigit (b ! c2) \<and> isxdigit (b ! (c2 + 1))")
      case False
      then show ?thesis
        using True dr by (auto simp add: decode_hex.simps[of b c1 c2 e])
    next
      case hex: True
      let ?v = "ucast (unhex (b ! c2) (b ! (c2 + 1))) :: byte"
      let ?b1 = "b[c1 := ?v]"
      have c1: "c1 < length b" "c1 < c2 + 2" using "1.prems" c22 by auto
      have unf: "decode_hex b c1 c2 e = decode_hex ?b1 (c1 + 1) (c2 + 2) e"
        using True hex by (simp add: decode_hex.simps[of b c1 c2 e])
      have dr1: "drop (c2 + 2) (take e ?b1) = drop (c2 + 2) (take e b)"
        using c1 by (simp add: take_update_swap drop_update_cancel del: drop_take)
      have tk1: "take (c1 + 1) ?b1 = take c1 b @ [?v]"
        using c1 by (simp add: take_Suc_conv_app_nth)
      have IH: "if (\<forall>x \<in> set (drop (c2 + 2) (take e ?b1)). isxdigit x)
         then (\<exists>b'. decode_hex ?b1 (c1 + 1) (c2 + 2) e = (b', Some (e div 2))
                 \<and> take (e div 2) b' = take (c1 + 1) ?b1 @ hex_pairs (drop (c2 + 2) (take e ?b1))
                 \<and> length b' = length ?b1)
         else (\<exists>b'. decode_hex ?b1 (c1 + 1) (c2 + 2) e = (b', None) \<and> length b' = length ?b1)"
      proof -
        have h2: "\<not> (\<not> isxdigit (b ! c2) \<or> \<not> isxdigit (b ! (c2 + 1)))" using hex by simp
        have p1: "c2 + 2 = 2 * (c1 + 1)" using "1.prems"(1) by simp
        have p2: "e \<le> length ?b1" using "1.prems"(2) by simp
        show ?thesis
          by (rule "1.IH"[OF True h2 p1 p2 "1.prems"(3) c22])
      qed
      show ?thesis
        using IH hex unfolding unf dr1 tk1 dr by (auto split: if_splits)
    qed
  qed
qed

lemma readline_lead_data:
  assumes "stdin s = (if mode s AND NOHDR \<noteq> 0 then [] else [0x20]) @ inp"
  shows "readline_lead wh s = Done () (s\<lparr>stdin := inp\<rparr>)"
proof (cases "mode s AND NOHDR \<noteq> 0")
  case True
  then have "stdin s = inp" using assms by simp
  then have "s\<lparr>stdin := inp\<rparr> = s" by simp
  then show ?thesis using True by (simp add: readline_lead_def)
next
  case False
  then show ?thesis using assms by (simp add: readline_lead_def)
qed

lemma read_text:
  assumes b: "get_buf wh s = b"
    and inp: "stdin s = p @ NL # rest" and p: "NL \<notin> set p" "NUL \<notin> set p"
    and sz: "2 \<le> iov_len b" "iov_len b \<le> length (iov_base b)" "iov_len b < 2 ^ 31"
    and bd: "length p + 2 < 2 ^ 31"
    and al: "\<forall>n. realloc_ok w n"
  shows "\<exists>s1 s3. fgets_size (iov_len b) = Some (iov_len b)
          \<and> fgets_into wh 0 (iov_len b) s = Some s1
          \<and> grow_line w wh (strlen_at (iov_base (get_buf wh s1)) 0) (s1\<lparr>lineno := lineno s1 + 1\<rparr>)
              = Done (length p + 1) s3
          \<and> take (length p + 1) (iov_base (get_buf wh s3)) = p @ [NL]
          \<and> length p + 1 < length (iov_base (get_buf wh s3))
          \<and> stdin s3 = rest \<and> Eof s3 = Eof s \<and> stderr s3 = stderr s
          \<and> lineno s3 = lineno s + 1 \<and> mode s3 = mode s"
proof -
  let ?n = "iov_len b"
  have fs: "fgets_size ?n = Some ?n" using sz by (simp add: fgets_size_def)
  show ?thesis
  proof (cases "length p + 1 \<le> ?n - 1")
    case True
    let ?base1 = "poke (iov_base b) 0 ((p @ [NL]) @ [NUL])"
    let ?s1 = "set_buf wh (b\<lparr>iov_base := ?base1\<rparr>) (s\<lparr>stdin := rest\<rparr>)"
    let ?s2 = "?s1\<lparr>lineno := lineno ?s1 + 1\<rparr>"
    have rd: "fgets ?n (stdin s) = Some (p @ [NL], rest)"
      using inp p(1) True by (simp add: fgets_whole)
    have fi: "fgets_into wh 0 ?n s = Some ?s1"
      using rd b by (simp add: fgets_into_def)
    have nonul: "NUL \<notin> set (p @ [NL])" using p(2) by (simp add: NL_def NUL_def)
    have sl: "strlen_at ?base1 0 = length p + 1"
      using strlen_at_poke[OF nonul, of 0 "iov_base b"] by simp
    have tk: "take (length p + 1) ?base1 = p @ [NL]"
      using take_poke[of 0 "iov_base b" "p @ [NL]" "[NUL]"] by simp
    have len1: "length ?base1 = length (iov_base b)"
      using length_poke[of 0 "(p @ [NL]) @ [NUL]" "iov_base b"] True sz by simp
    have inr: "length p + 1 < length ?base1" using len1 True sz by simp
    have "?base1 ! length p = take (length p + 1) ?base1 ! length p" by simp
    also have "\<dots> = NL" unfolding tk by (simp add: nth_append)
    finally have pk: "peek (iov_base (get_buf wh ?s2)) (length p + 1 - 1) = Some NL"
      using inr by (simp add: peek_def)
    have "grow_line w wh (length p + 1) ?s2 = Done (length p + 1) ?s2"
      by (rule grow_line_done[OF _ pk]) simp
    then show ?thesis
      using fs fi sl tk inr by (intro exI[of _ ?s1] exI[of _ ?s2]) simp
  next
    case False
    then have more: "?n - 1 \<le> length p" by simp
    let ?pre = "take (?n - 1) p"
    let ?q = "drop (?n - 1) p"
    let ?base1 = "poke (iov_base b) 0 (?pre @ [NUL])"
    let ?s1 = "set_buf wh (b\<lparr>iov_base := ?base1\<rparr>) (s\<lparr>stdin := ?q @ NL # rest\<rparr>)"
    let ?s2 = "?s1\<lparr>lineno := lineno ?s1 + 1\<rparr>"
    have rd: "fgets ?n (stdin s) = Some (?pre, ?q @ NL # rest)"
      using inp p(1) more by (simp add: fgets_part)
    have fi: "fgets_into wh 0 ?n s = Some ?s1"
      using rd b by (simp add: fgets_into_def)
    have lp: "length ?pre = ?n - 1" using more by simp
    have nonul: "NUL \<notin> set ?pre" using p(2) by (auto dest: in_set_takeD)
    have sl: "strlen_at ?base1 0 = ?n - 1"
      using strlen_at_poke[OF nonul, of 0 "iov_base b"] lp by simp
    have tk: "take (?n - 1) ?base1 = ?pre"
      using take_poke[of 0 "iov_base b" ?pre "[NUL]"] lp by simp
    have len1: "length ?base1 = length (iov_base b)"
      using length_poke[of 0 "?pre @ [NUL]" "iov_base b"] lp sz by simp
    have gb: "get_buf wh ?s2 = b\<lparr>iov_base := ?base1\<rparr>" by simp
    have q: "NL \<notin> set ?q" "NUL \<notin> set ?q" using p by (auto dest: in_set_dropD)
    have pre: "take (?n - 1) (iov_base (b\<lparr>iov_base := ?base1\<rparr>)) = ?pre" "NL \<notin> set ?pre"
      "?n - 1 \<noteq> 0"
      using tk p(1) sz by (auto dest: in_set_takeD)
    have sz2: "?n - 1 + 1 = iov_len (b\<lparr>iov_base := ?base1\<rparr>)"
      "iov_len (b\<lparr>iov_base := ?base1\<rparr>) \<le> length (iov_base (b\<lparr>iov_base := ?base1\<rparr>))"
      using sz len1 by simp_all
    have bd2: "?n - 1 + length ?q + 2 < 2 ^ 31" using bd more by simp
    have inp2: "stdin ?s2 = ?q @ NL # rest" by simp
    obtain s3 where s3: "grow_line w wh (?n - 1) ?s2 = Done (?n - 1 + length ?q + 1) s3"
       "take (?n - 1 + length ?q + 1) (iov_base (get_buf wh s3)) = ?pre @ ?q @ [NL]"
       "?n - 1 + length ?q + 1 < length (iov_base (get_buf wh s3))"
       "stdin s3 = rest" "Eof s3 = Eof ?s2" "stderr s3 = stderr ?s2"
       "lineno s3 = lineno ?s2" "mode s3 = mode ?s2"
      using grow_line_reads[OF gb inp2 q pre sz2 al bd2] by blast
    have eq: "?n - 1 + length ?q + 1 = length p + 1" using more by simp
    show ?thesis
      using fs fi sl s3 unfolding eq by (intro exI[of _ ?s1] exI[of _ s3]) simp
  qed
qed

lemma ucast_unhex_value:
  assumes "isxdigit a" "isxdigit b"
  shows "unat (ucast (unhex a b) :: byte) = 16 * hexval a + hexval b"
proof -
  let ?v = "16 * hexval a + hexval b"
  have v: "?v < 256" by (rule unhex_of_digits(2)[OF assms])
  have "unat (ucast (word_of_nat ?v :: 32 word) :: byte) = take_bit 8 (unat (word_of_nat ?v :: 32 word))"
    by (simp add: unsigned_ucast_eq)
  also have "unat (word_of_nat ?v :: 32 word) = ?v"
    by (subst unat_of_nat) (use v in simp)
  also have "take_bit 8 ?v = ?v" using v by (simp add: take_bit_nat_eq_self_iff)
  finally show ?thesis using unhex_of_digits(1)[OF assms] by simp
qed

lemma decode_hex_accept0:
  assumes "take e b = p" "e \<le> length b" "even e" "\<forall>x\<in>set p. isxdigit x"
  shows "\<exists>b'. decode_hex b 0 0 e = (b', Some (e div 2)) \<and> take (e div 2) b' = hex_pairs p"
  using decode_hex_correct[of 0 0 e b] assms by (auto split: if_splits)

lemma decode_hex_reject0:
  assumes "take e b = p" "e \<le> length b" "even e" "\<exists>x\<in>set p. \<not> isxdigit x"
  shows "\<exists>b'. decode_hex b 0 0 e = (b', None)"
  using decode_hex_correct[of 0 0 e b] assms by (auto split: if_splits)

text \<open>
  Claim C8, as amended.  In byte-value mode (\<^verbatim>\<open>PRINT\<close> not set), take a data line with
  payload \<open>p\<close>: the input is the leading space (absent in \<^verbatim>\<open>NOHDR\<close> mode), then \<open>p\<close>,
  then a newline.  Let \<open>p\<close> contain no NUL byte, let the buffer be well formed and let
  the allocator never fail.  If \<open>p\<close> has odd length or contains a byte that is not a
  hexadecimal digit, \<^const>\<open>readline\<close> returns \<^verbatim>\<open>EOF\<close> with the end-of-input flag set
  and the message "unexpected end of input".  If \<open>p\<close> consists of \<open>2n\<close> hexadecimal
  digits, \<^const>\<open>readline\<close> returns 0 with exactly \<open>n\<close> bytes, the \<open>i\<close>-th being the value
  of the digit pair at positions \<open>2i\<close> and \<open>2i+1\<close>.
\<close>

theorem readline_bytevalue:
  assumes md: "mode s AND PRINT = 0"
    and inp: "stdin s = (if mode s AND NOHDR \<noteq> 0 then [] else [0x20]) @ p @ NL # rest"
    and p: "NL \<notin> set p" "NUL \<notin> set p"
    and sz: "2 \<le> iov_len (get_buf wh s)"
            "iov_len (get_buf wh s) \<le> length (iov_base (get_buf wh s))"
            "iov_len (get_buf wh s) < 2 ^ 31"
    and bd: "length p + 2 < 2 ^ 31"
    and al: "\<forall>n. realloc_ok w n"
  shows "(odd (length p) \<or> (\<exists>c\<in>set p. \<not> isxdigit c) \<longrightarrow>
           (\<exists>s'. readline w wh s = Fail s' \<and> Eof s'
                 \<and> stderr s' = stderr s @ [Unexpected_end (lineno s + 1)] \<and> stdin s' = rest))
       \<and> (even (length p) \<and> (\<forall>c\<in>set p. isxdigit c) \<longrightarrow>
           (\<exists>out s'. readline w wh s = Done out s' \<and> length out = length p div 2
               \<and> (\<forall>i < length p div 2.
                      out ! i = ucast (unhex (p ! (2 * i)) (p ! (2 * i + 1)))
                    \<and> unat (out ! i) = 16 * hexval (p ! (2 * i)) + hexval (p ! (2 * i + 1)))
               \<and> stdin s' = rest \<and> Eof s' = Eof s \<and> stderr s' = stderr s))"
proof -
  let ?sa = "s\<lparr>stdin := p @ NL # rest\<rparr>"
  let ?n = "length p"
  have lead: "readline_lead wh s = Done () ?sa"
    using inp by (rule readline_lead_data)
  have gb: "get_buf wh ?sa = get_buf wh s" by simp
  have sza: "2 \<le> iov_len (get_buf wh s)" "iov_len (get_buf wh s) \<le> length (iov_base (get_buf wh s))"
    "iov_len (get_buf wh s) < 2 ^ 31" using sz by simp_all
  obtain s1 s3 where t:
    "fgets_size (iov_len (get_buf wh s)) = Some (iov_len (get_buf wh s))"
    "fgets_into wh 0 (iov_len (get_buf wh s)) ?sa = Some s1"
    "grow_line w wh (strlen_at (iov_base (get_buf wh s1)) 0) (s1\<lparr>lineno := lineno s1 + 1\<rparr>)
       = Done (?n + 1) s3"
    "take (?n + 1) (iov_base (get_buf wh s3)) = p @ [NL]"
    "?n + 1 < length (iov_base (get_buf wh s3))"
    "stdin s3 = rest" "Eof s3 = Eof ?sa" "stderr s3 = stderr ?sa"
    "lineno s3 = lineno ?sa + 1" "mode s3 = mode ?sa"
    using read_text[OF gb _ p sza bd al, of rest] by auto
  let ?buf = "get_buf wh s3"
  let ?b = "(iov_base ?buf)[?n := NUL]"
  have "take ?n (take (?n + 1) (iov_base ?buf)) = p" unfolding t(4) by simp
  then have tkb: "take ?n ?b = p" by (simp add: min_def)
  have lenb: "?n \<le> length ?b" using t(5) by simp
  have unf: "readline w wh s =
     (let (b', r) = (if odd ?n then (?b, None) else decode_hex ?b 0 0 ?n);
          s4 = set_buf wh (?buf\<lparr>iov_base := b'\<rparr>) s3
      in (case r of None \<Rightarrow> Fail (badend (s4\<lparr>Eof := True\<rparr>))
          | Some n \<Rightarrow> Done (take n b') s4))"
    using lead t(1,2,3) t(10) md by (simp add: readline_def Let_def)
  have rej: "\<exists>s'. readline w wh s = Fail s' \<and> Eof s'
                 \<and> stderr s' = stderr s @ [Unexpected_end (lineno s + 1)] \<and> stdin s' = rest"
    if "odd ?n \<or> (\<exists>c\<in>set p. \<not> isxdigit c)"
  proof (cases "odd ?n")
    case True
    then show ?thesis
      unfolding unf using t(6-9) by (simp add: badend_def say_def)
  next
    case False
    then have ex: "\<exists>x\<in>set p. \<not> isxdigit x" and evn: "even ?n"
      using that by simp_all
    obtain b' where "decode_hex ?b 0 0 ?n = (b', None)"
      using decode_hex_reject0[OF tkb lenb evn ex] by blast
    then show ?thesis
      unfolding unf using False t(6-9) by (simp add: badend_def say_def)
  qed
  have acc: "\<exists>out s'. readline w wh s = Done out s' \<and> length out = ?n div 2
               \<and> (\<forall>i < ?n div 2.
                      out ! i = ucast (unhex (p ! (2 * i)) (p ! (2 * i + 1)))
                    \<and> unat (out ! i) = 16 * hexval (p ! (2 * i)) + hexval (p ! (2 * i + 1)))
               \<and> stdin s' = rest \<and> Eof s' = Eof s \<and> stderr s' = stderr s"
    if ev: "even ?n" and hx: "\<forall>c\<in>set p. isxdigit c"
  proof -
    obtain b' where d: "decode_hex ?b 0 0 ?n = (b', Some (?n div 2))"
       and out: "take (?n div 2) b' = hex_pairs p"
      using decode_hex_accept0[OF tkb lenb ev hx] by blast
    have v1: "hex_pairs p ! i = ucast (unhex (p ! (2 * i)) (p ! (2 * i + 1)))"
      if i: "i < ?n div 2" for i
      using hex_pairs_nth[OF i] .
    have v2: "unat (ucast (unhex (p ! (2 * i)) (p ! (2 * i + 1))) :: byte)
                = 16 * hexval (p ! (2 * i)) + hexval (p ! (2 * i + 1))"
      if i: "i < ?n div 2" for i
    proof -
      have i2: "2 * i < ?n" "2 * i + 1 < ?n" using i by auto
      have "isxdigit (p ! (2 * i))" "isxdigit (p ! (2 * i + 1))"
        using hx i2 nth_mem by blast+
      then show ?thesis by (rule ucast_unhex_value)
    qed
    show ?thesis
      unfolding unf using ev d out v1 v2 t(6-8)
      by (simp add: length_hex_pairs)
  qed
  show ?thesis using rej acc by blast
qed

theorem readline_bytevalue_witness:
  "(\<exists>out s'. readline world0 DBUF (state0\<lparr>stdin := [0x20, 0x34, 0x61, 0x36, 0x46, 0x0A]\<rparr>) = Done out s'
       \<and> length out = 2 \<and> unat (out ! 0) = 74 \<and> unat (out ! 1) = 111 \<and> stdin s' = [])
   \<and> (\<exists>s'. readline world0 DBUF (state0\<lparr>stdin := [0x20, 0x34, 0x61, 0x36, 0x0A]\<rparr>) = Fail s'
       \<and> Eof s' \<and> stderr s' = [Unexpected_end 1])"
proof -
  let ?p = "[0x34, 0x61, 0x36, 0x46] :: byte list"
  let ?s = "state0\<lparr>stdin := [0x20, 0x34, 0x61, 0x36, 0x46, 0x0A]\<rparr>"
  let ?q = "[0x34, 0x61, 0x36] :: byte list"
  let ?t = "state0\<lparr>stdin := [0x20, 0x34, 0x61, 0x36, 0x0A]\<rparr>"
  have md: "mode ?s AND PRINT = 0" "mode ?t AND PRINT = 0" by (simp_all add: state0_def)
  have inp: "stdin ?s = (if mode ?s AND NOHDR \<noteq> 0 then [] else [0x20]) @ ?p @ NL # []"
    "stdin ?t = (if mode ?t AND NOHDR \<noteq> 0 then [] else [0x20]) @ ?q @ NL # []"
    by (simp_all add: state0_def NL_def)
  have p: "NL \<notin> set ?p" "NUL \<notin> set ?p" "NL \<notin> set ?q" "NUL \<notin> set ?q"
    by (simp_all add: NL_def NUL_def)
  have sz: "2 \<le> iov_len (get_buf DBUF ?s)"
    "iov_len (get_buf DBUF ?s) \<le> length (iov_base (get_buf DBUF ?s))"
    "iov_len (get_buf DBUF ?s) < 2 ^ 31"
    "2 \<le> iov_len (get_buf DBUF ?t)"
    "iov_len (get_buf DBUF ?t) \<le> length (iov_base (get_buf DBUF ?t))"
    "iov_len (get_buf DBUF ?t) < 2 ^ 31"
    by (simp_all add: state0_def)
  have bd: "length ?p + 2 < 2 ^ 31" "length ?q + 2 < 2 ^ 31" by simp_all
  have al: "\<forall>n. realloc_ok world0 n" by (simp add: world0_def)
  have hx: "even (length ?p) \<and> (\<forall>c\<in>set ?p. isxdigit c)" by (simp add: isxdigit_def)
  have od: "odd (length ?q) \<or> (\<exists>c\<in>set ?q. \<not> isxdigit c)" by simp
  have hv: "hexval 0x34 = 4" "hexval 0x61 = 10" "hexval 0x36 = 6" "hexval 0x46 = 15"
    by (simp_all add: hexval_def)
  from readline_bytevalue[OF md(1) inp(1) p(1,2) sz(1,2,3) bd(1) al] hx
  obtain out s' where a: "readline world0 DBUF ?s = Done out s'" "length out = length ?p div 2"
    "\<forall>i < length ?p div 2.
        out ! i = ucast (unhex (?p ! (2 * i)) (?p ! (2 * i + 1)))
      \<and> unat (out ! i) = 16 * hexval (?p ! (2 * i)) + hexval (?p ! (2 * i + 1))"
    "stdin s' = []"
    by blast
  have "unat (out ! 0) = 74" using a(3)[rule_format, of 0] hv by (simp add: unhex_def)
  moreover have "unat (out ! 1) = 111" using a(3)[rule_format, of 1] hv by (simp add: unhex_def)
  ultimately have A: "\<exists>out s'. readline world0 DBUF ?s = Done out s'
       \<and> length out = 2 \<and> unat (out ! 0) = 74 \<and> unat (out ! 1) = 111 \<and> stdin s' = []"
    using a(1,2,4) by simp
  from readline_bytevalue[OF md(2) inp(2) p(3,4) sz(4,5,6) bd(2) al] od
  have B: "\<exists>s'. readline world0 DBUF ?t = Fail s' \<and> Eof s' \<and> stderr s' = [Unexpected_end 1]"
    by (auto simp add: state0_def)
  from A B show ?thesis by blast
qed

text \<open>
  Claim C8 as stated fails on a payload with a NUL byte.  The data line \<^verbatim>\<open> 41\<close>, NUL,
  newline has a payload of odd length with a byte that is no hexadecimal digit.
  \<^verbatim>\<open>strlen\<close> stops at the NUL, the line counts as unfinished, and the next line
  \<^verbatim>\<open>42\<close> is appended after \<^verbatim>\<open>41\<close>: \<^const>\<open>readline\<close> returns 0 with the bytes 0x41
  0x42, the end-of-input flag stays clear and nothing is reported.
\<close>

theorem readline_bytevalue_counterexample:
  "outcome (readline world0 DBUF (state0\<lparr>stdin := [0x20, 0x34, 0x31, 0x00, 0x0A, 0x34, 0x32, 0x0A]\<rparr>))
     = (Some [0x41, 0x42], False, [])"
  by (simp add: world0_def state0_def readline_def readline_lead_def fgets_into_def fgets_def
        fgets_size_def NL_def NUL_def NOHDR_def PRINT_def strlen_at_def cstring_at_def peek_def
        poke_def isxdigit_def unhex_def realloc_def Let_def grow_line.simps decode_hex.simps
        nth_append del: upt_rec_numeral)

section \<open>Properties of \<^verbatim>\<open>readhdr\<close>\<close>

text \<open>
  Claim C10, at an input where the code departs from it.  The header
  \<^verbatim>\<open>VERSION=3\<close>, \<^verbatim>\<open>junk\<close>, \<^verbatim>\<open>HEADER=END\<close> has a non-empty second line without a
  \<^verbatim>\<open>=\<close>.  \<^verbatim>\<open>readhdr\<close> looks for the \<^verbatim>\<open>=\<close> with \<^verbatim>\<open>memchr\<close> over the whole buffer, where
  the first line has left one behind the five bytes of the second.  Whatever the buffer
  held at the start, the program does not exit: the line is reported as an unrecognized
  keyword, parsing continues and \<^verbatim>\<open>readhdr\<close> returns at \<^verbatim>\<open>HEADER=END\<close>.
\<close>

theorem readhdr_line_without_equals:
  assumes "length jnk = 4096"
  shows "outcome (readhdr world0
     (state0\<lparr>dbuf := \<lparr>iov_base = jnk, iov_len = 4096\<rparr>,
              stdin := bytes_of ''VERSION=3'' @ [NL] @ bytes_of ''junk'' @ [NL]
                 @ bytes_of ''HEADER=END'' @ [NL]\<rparr>))
   = (Some (), False, [Unrecognized_keyword 2 (bytes_of ''junk'' @ [NL])])"
  using assms
  by (simp add: readhdr_def readhdr_loop.simps hdr_line_def world0_def state0_def
        fgets_into_def fgets_def fgets_size_def bytes_of_def NL_def NUL_def poke_def
        has_prefix_at_def cstring_at_def dbflags_def say_def Let_def
        atoi_decimal_def scan_decimal_def isspace_def isdigit_def)

theorem readhdr_line_without_equals_witness:
  "length (replicate 4096 (0 :: byte)) = 4096
   \<and> outcome (readhdr world0
     (state0\<lparr>dbuf := \<lparr>iov_base = replicate 4096 0, iov_len = 4096\<rparr>,
              stdin := bytes_of ''VERSION=3'' @ [NL] @ bytes_of ''junk'' @ [NL]
                 @ bytes_of ''HEADER=END'' @ [NL]\<rparr>))
   = (Some (), False, [Unrecognized_keyword 2 (bytes_of ''junk'' @ [NL])])"
  using readhdr_line_without_equals[of "replicate 4096 0"] by simp

section \<open>Properties of \<^verbatim>\<open>main\<close>\<close>

subsection \<open>The calls of a run\<close>

lemma settings_set_buf [simp]: "settings (set_buf wh v s) = settings s"
  by (cases wh) (auto simp: settings_def)

lemma settings_upd [simp]:
  "settings (s\<lparr>stdin := a\<rparr>) = settings s" "settings (s\<lparr>Eof := b\<rparr>) = settings s"
  "settings (s\<lparr>lineno := c\<rparr>) = settings s" "settings (s\<lparr>stderr := d\<rparr>) = settings s"
  by (simp_all add: settings_def)

lemma settings_say [simp]: "settings (say d s) = settings s"
  by (simp add: say_def)

lemma settings_badend [simp]: "settings (badend s) = settings s"
  by (simp add: badend_def)



















lemma same_opts_refl [simp]: "same_opts l l"
  by (simp add: same_opts_def)

lemma loader_call_simps [simp]:
  "loader_call app pf Txn_commit" "loader_call app pf Txn_begin" "loader_call app pf Cursor_open"
  "loader_call app pf Dbi_close" "loader_call app pf Env_close" "loader_call app pf (Txn_abort b)"
  "loader_call app pf Env_create" "loader_call app pf (Env_set_maxdbs 2)"
  "loader_call app pf (Env_open p f m)" "loader_call app pf (Env_get_maxvalsize_ex df)"
  "loader_call app pf (Env_set_geometry 0 0 n (- 1) (- 1) (- 1))"
  by (simp_all add: loader_call_def)


















lemma stderr_set_buf [simp]: "stderr (set_buf wh v s) = stderr s"
  by (cases wh) auto





lemma putflags_append_flags [simp]: "putflags (snd (append_flags l s k)) = putflags l"
  by (simp add: append_flags_def)

lemma rescue_append_flags [simp]: "rescue (snd (append_flags l s k)) = rescue l"
  by (simp add: append_flags_def)

lemma txn_append_flags [simp]: "txn (snd (append_flags l s k)) = txn l"
  by (simp add: append_flags_def)


subsection \<open>Records that the engine refuses\<close>








end
